theory Spec2Isabelle
  imports Main "HOL-Library.Sublist" "HOL-Library.Multiset"
begin

section \<open>Strings and the character classes of Python's \<open>re\<close>\<close>

text \<open>
  The hook \<open>post-tool-use/check-package-versions.py\<close> works on Python \<open>str\<close> values.
  They are modelled as \<open>string\<close>, one \<open>char\<close> per code point, which covers the code
  points 0 to 255. On that range the classes of \<open>re\<close> for \<open>str\<close> patterns are the
  following: \<open>\d\<close> is the ten ASCII digits, \<open>\s\<close> (and \<open>str.split\<close>, \<open>str.strip\<close>)
  is the twelve characters for which \<open>str.isspace\<close> holds, and \<open>\w\<close> is the
  alphanumeric characters and the underscore.
\<close>

definition is_digit :: "char \<Rightarrow> bool" where
  "is_digit c = (c \<in> set ''0123456789'')"

definition is_space :: "char \<Rightarrow> bool" where
  "is_space c = ((of_char c :: nat) \<in> {9, 10, 11, 12, 13, 28, 29, 30, 31, 32, 133, 160})"

definition is_word :: "char \<Rightarrow> bool" where
  "is_word c =
     (let n = (of_char c :: nat) in
        (48 \<le> n \<and> n \<le> 57) \<or> (65 \<le> n \<and> n \<le> 90) \<or> n = 95 \<or> (97 \<le> n \<and> n \<le> 122) \<or>
        n = 170 \<or> n = 178 \<or> n = 179 \<or> n = 181 \<or> n = 185 \<or> n = 186 \<or>
        (188 \<le> n \<and> n \<le> 190) \<or> (192 \<le> n \<and> n \<le> 214) \<or> (216 \<le> n \<and> n \<le> 246) \<or>
        248 \<le> n)"

text \<open>\<open>int(s)\<close> on a run of decimal digits (leading zeros allowed, no size limit).\<close>

definition digit_val :: "char \<Rightarrow> int" where
  "digit_val c = int (of_char c) - 48"

definition py_int :: "string \<Rightarrow> int" where
  "py_int ds = foldl (\<lambda>a c. 10 * a + digit_val c) 0 ds"

section \<open>Version Extractor\<close>

text \<open>
  \<open>re.search(r"(\d+)", s)\<close>: the leftmost position where \<open>\d+\<close> matches, and there the
  longest run of digits (the quantifier is greedy). The result is group 1, or \<open>None\<close>.
\<close>

fun search_digits :: "string \<Rightarrow> string option" where
  "search_digits [] = None"
| "search_digits (c # cs) =
     (if is_digit c then Some (c # takeWhile is_digit cs) else search_digits cs)"

definition get_major_version :: "string \<Rightarrow> int option" where
  "get_major_version version_str =
     (if version_str = [] then None
      else (case search_digits version_str of
              None \<Rightarrow> None
            | Some g \<Rightarrow> Some (py_int g)))"

section \<open>Diff Resolver\<close>

record version_diff =
  package :: string
  installed_version :: string
  installed_major :: int
  latest_version :: string
  latest_major :: int

text \<open>
  \<open>get_npm_latest\<close> and \<open>get_pypi_latest\<close> ask a registry over HTTP and return the
  version string, or \<open>None\<close> on any failure. They are parameters of the model:
  a function from the package name to what the registry answers.
\<close>

type_synonym registry_client = "string \<Rightarrow> string option"

definition registry_latest :: "registry_client \<Rightarrow> registry_client \<Rightarrow> string \<Rightarrow> string \<Rightarrow> string option" where
  "registry_latest get_npm_latest get_pypi_latest registry pkg =
     (if registry = ''npm'' then get_npm_latest pkg else get_pypi_latest pkg)"

definition check_version_diff ::
  "registry_client \<Rightarrow> registry_client \<Rightarrow> string \<Rightarrow> string \<Rightarrow> string \<Rightarrow> version_diff option" where
  "check_version_diff get_npm_latest get_pypi_latest pkg installed_v registry =
     (case get_major_version installed_v of
        None \<Rightarrow> None
      | Some installed_m \<Rightarrow>
          (case registry_latest get_npm_latest get_pypi_latest registry pkg of
             None \<Rightarrow> None
           | Some latest \<Rightarrow>
               if latest = [] then None
               else (case get_major_version latest of
                       None \<Rightarrow> None
                     | Some latest_m \<Rightarrow>
                         if installed_m \<noteq> latest_m
                         then Some \<lparr>package = pkg,
                                    installed_version = installed_v,
                                    installed_major = installed_m,
                                    latest_version = latest,
                                    latest_major = latest_m\<rparr>
                         else None)))"

section \<open>Redundant-Entry Filter\<close>

text \<open>
  \<open>s.replace(old, new)\<close>: every occurrence of \<open>old\<close>, found from the left and not
  overlapping, is replaced; an empty \<open>old\<close> matches before every character and at the end.
\<close>

fun py_replace :: "string \<Rightarrow> string \<Rightarrow> string \<Rightarrow> string" where
  "py_replace old new [] = (if old = [] then new else [])"
| "py_replace old new (c # cs) =
     (if old = [] then new @ c # py_replace old new cs
      else if prefix old (c # cs) then new @ py_replace old new (drop (length old) (c # cs))
      else c # py_replace old new cs)"

text \<open>
  \<open>filter_redundant_types\<close>: the set comprehension, then the loop that appends to
  \<open>filtered\<close>. The message the loop logs for a skipped entry goes to stderr and is not
  part of the result.
\<close>

definition base_packages_of :: "version_diff list \<Rightarrow> string set" where
  "base_packages_of diffs =
     set (map package (filter (\<lambda>d. \<not> prefix ''@types/'' (package d)) diffs))"

fun filter_loop :: "string set \<Rightarrow> version_diff list \<Rightarrow> version_diff list \<Rightarrow> version_diff list" where
  "filter_loop base_packages [] filtered = filtered"
| "filter_loop base_packages (diff # diffs) filtered =
     (let pkg = package diff in
      if prefix ''@types/'' pkg \<and> py_replace ''@types/'' [] pkg \<in> base_packages
      then filter_loop base_packages diffs filtered
      else filter_loop base_packages diffs (filtered @ [diff]))"

definition filter_redundant_types :: "version_diff list \<Rightarrow> version_diff list" where
  "filter_redundant_types diffs = filter_loop (base_packages_of diffs) diffs []"

text \<open>The test of the loop, as a predicate: the entry is skipped.\<close>

definition redundant :: "string set \<Rightarrow> version_diff \<Rightarrow> bool" where
  "redundant base_packages d =
     (prefix ''@types/'' (package d) \<and> py_replace ''@types/'' [] (package d) \<in> base_packages)"

section \<open>Research Cache\<close>

text \<open>\<open>str(n)\<close> for an integer: decimal digits, with a minus sign below zero.\<close>

fun str_nat :: "nat \<Rightarrow> string" where
  "str_nat n =
     (if n < 10 then [''0123456789'' ! n]
      else str_nat (n div 10) @ [''0123456789'' ! (n mod 10)])"

declare str_nat.simps [simp del]

definition py_str :: "int \<Rightarrow> string" where
  "py_str i = (if i < 0 then CHR ''-'' # str_nat (nat (- i)) else str_nat (nat i))"

definition cache_key :: "string \<Rightarrow> int \<Rightarrow> int \<Rightarrow> string" where
  "cache_key pkg old_major new_major = pkg @ '':'' @ py_str old_major @ ''->'' @ py_str new_major"

definition key_of :: "'a version_diff_scheme \<Rightarrow> string" where
  "key_of d = cache_key (package d) (installed_major d) (latest_major d)"

text \<open>
  The cache is a Python \<open>dict\<close> from key strings to research texts. The file
  \<open>CACHE_FILE\<close> is missing, or holds such a document, or cannot be opened or decoded.
  \<open>load_cache\<close> and \<open>save_cache\<close> swallow every exception; how the write goes is a
  parameter: the document is written, or the directory or the file could not be opened
  (the file stays as it is), or the write broke off after \<open>open(..., "w")\<close> had truncated
  the file. The state of the file and the trace of what the run did to the outside are
  the fields of \<open>world\<close>.
\<close>

type_synonym cache = "string \<rightharpoonup> string"

datatype file_state = Missing | Unreadable | Document cache

datatype write_outcome = Written | NotOpened | Interrupted

datatype io_event = CacheRead | CacheWrite | Spawn string int int

record world =
  cache_file :: file_state
  io_log :: "io_event list"

definition load_cache :: "world \<Rightarrow> cache \<times> world" where
  "load_cache w =
     ((case cache_file w of Document c \<Rightarrow> c | Missing \<Rightarrow> Map.empty | Unreadable \<Rightarrow> Map.empty),
      w\<lparr>io_log := io_log w @ [CacheRead]\<rparr>)"

definition save_cache :: "write_outcome \<Rightarrow> cache \<Rightarrow> world \<Rightarrow> world" where
  "save_cache how cache w =
     w\<lparr>cache_file :=
          (case how of Written \<Rightarrow> Document cache
                     | NotOpened \<Rightarrow> cache_file w
                     | Interrupted \<Rightarrow> Unreadable),
        io_log := io_log w @ [CacheWrite]\<rparr>"

section \<open>Research Dispatcher\<close>

text \<open>
  \<open>spawn_research\<close> runs the external agent with a prompt that is a fixed template of
  the package and the two majors, so the agent is a function of these three: it
  completes with a return code and its standard output, or \<open>subprocess.run\<close> raises
  \<open>TimeoutExpired\<close>, or it raises another exception, of which \<open>str(e)\<close> is kept.
  The return code is not read by the code.
\<close>

datatype run_outcome = Completed int string | TimeoutExpired | Raised string

type_synonym agent = "string \<Rightarrow> int \<Rightarrow> int \<Rightarrow> run_outcome"

definition py_strip :: "string \<Rightarrow> string" where
  "py_strip s = rev (dropWhile is_space (rev (dropWhile is_space s)))"

definition spawn_research :: "agent \<Rightarrow> string \<Rightarrow> int \<Rightarrow> int \<Rightarrow> string" where
  "spawn_research run pkg old_major new_major =
     (case run pkg old_major new_major of
        Completed returncode stdout \<Rightarrow> py_strip stdout
      | TimeoutExpired \<Rightarrow> ''(Research timed out for '' @ pkg @ '')''
      | Raised e \<Rightarrow> ''(Research failed for '' @ pkg @ '': '' @ e @ '')'')"

text \<open>A result is the diff with one more entry, \<open>{**diff, "research": research}\<close>.\<close>

record research_result = version_diff +
  research :: string

definition with_research :: "version_diff \<Rightarrow> string \<Rightarrow> research_result" where
  "with_research diff text =
     \<lparr>package = package diff, installed_version = installed_version diff,
      installed_major = installed_major diff, latest_version = latest_version diff,
      latest_major = latest_major diff, research = text\<rparr>"

definition research_worker :: "agent \<Rightarrow> version_diff \<Rightarrow> research_result" where
  "research_worker run diff =
     with_research diff (spawn_research run (package diff) (installed_major diff) (latest_major diff))"

text \<open>
  The loop of \<open>main\<close> that separates the cached diffs from the uncached ones
  (\<open>key in cache\<close>, then \<open>cache[key]\<close>).
\<close>

fun split_cached ::
  "cache \<Rightarrow> version_diff list \<Rightarrow> research_result list \<Rightarrow> version_diff list \<Rightarrow>
   research_result list \<times> version_diff list" where
  "split_cached cache [] cached_results uncached_diffs = (cached_results, uncached_diffs)"
| "split_cached cache (diff # diffs) cached_results uncached_diffs =
     (let key = cache_key (package diff) (installed_major diff) (latest_major diff) in
      case cache key of
        Some text \<Rightarrow>
          split_cached cache diffs (cached_results @ [with_research diff text]) uncached_diffs
      | None \<Rightarrow> split_cached cache diffs cached_results (uncached_diffs @ [diff]))"

text \<open>
  A future is the diff it was submitted for and what \<open>future.result()\<close> gives: the
  worker's result, or the exception the worker raised (\<open>Inl\<close>, with \<open>str(e)\<close>). The loop
  over \<open>as_completed(futures)\<close> appends every result, and stores in the cache the texts
  that do not start with a parenthesis.
\<close>

text \<open>The assignment \<open>cache[key] = text\<close>.\<close>

definition store :: "cache \<Rightarrow> string \<Rightarrow> string \<Rightarrow> cache" where
  "store cache key text = cache(key \<mapsto> text)"

type_synonym future = "version_diff \<times> (string + research_result)"

fun collect :: "future list \<Rightarrow> research_result list \<Rightarrow> cache \<Rightarrow> research_result list \<times> cache" where
  "collect [] research_results cache = (research_results, cache)"
| "collect ((diff, Inr result) # futures) research_results cache =
     (if \<not> prefix ''('' (research result)
      then collect futures (research_results @ [result])
             (store cache
                (cache_key (package result) (installed_major result) (latest_major result))
                (research result))
      else collect futures (research_results @ [result]) cache)"
| "collect ((diff, Inl e) # futures) research_results cache =
     collect futures
       (research_results @ [with_research diff (''(Research failed: '' @ e @ '')'')]) cache"

text \<open>
  \<open>main\<close> from the point where the diffs are known (\<open>if not diffs\<close>) to the end of the
  research stage. \<open>completion\<close> is the order in which \<open>as_completed\<close> yields the
  futures. Every worker is started by the pool between the load and the save; the trace
  lists them in the order of submission. The run ends with exit status 0 and no output,
  or with exit status 2 and the output composed from \<open>research_results\<close>.
\<close>

datatype exit = Exit0 | Exit2 "research_result list"

definition submit :: "agent \<Rightarrow> version_diff list \<Rightarrow> future list" where
  "submit run uncached_diffs = map (\<lambda>diff. (diff, Inr (research_worker run diff))) uncached_diffs"

definition spawned :: "version_diff \<Rightarrow> io_event" where
  "spawned diff = Spawn (package diff) (installed_major diff) (latest_major diff)"

definition main_from_diffs ::
  "agent \<Rightarrow> (future list \<Rightarrow> future list) \<Rightarrow> write_outcome \<Rightarrow> version_diff list \<Rightarrow> world \<Rightarrow>
   exit \<times> world" where
  "main_from_diffs run completion how diffs0 w0 =
     (if diffs0 = [] then (Exit0, w0)
      else
        let diffs = filter_redundant_types diffs0;
            (cache, w1) = load_cache w0;
            (cached_results, uncached_diffs) = split_cached cache diffs [] []
        in if uncached_diffs \<noteq> []
           then
             let w2 = w1\<lparr>io_log := io_log w1 @ map spawned uncached_diffs\<rparr>;
                 (research_results, cache') =
                    collect (completion (submit run uncached_diffs)) cached_results cache
             in (Exit2 research_results, save_cache how cache' w2)
           else (Exit2 cached_results, w1))"

text \<open>
  What the two loops compute, written with \<open>filter\<close> and \<open>map\<close>: the uncached diffs, the
  results built from the cache, the result the loop appends for a future, and whether
  the loop stores its text.
\<close>

definition uncached_diffs_of :: "cache \<Rightarrow> version_diff list \<Rightarrow> version_diff list" where
  "uncached_diffs_of cache diffs = filter (\<lambda>d. cache (key_of d) = None) diffs"

definition cached_results_of :: "cache \<Rightarrow> version_diff list \<Rightarrow> research_result list" where
  "cached_results_of cache diffs =
     map (\<lambda>d. with_research d (the (cache (key_of d)))) (filter (\<lambda>d. cache (key_of d) \<noteq> None) diffs)"

fun result_of :: "future \<Rightarrow> research_result" where
  "result_of (diff, Inr result) = result"
| "result_of (diff, Inl e) = with_research diff (''(Research failed: '' @ e @ '')'')"

fun stored :: "future \<Rightarrow> bool" where
  "stored (diff, Inr result) = (\<not> prefix ''('' (research result))"
| "stored (diff, Inl e) = False"

section \<open>The invocation event\<close>

text \<open>
  \<open>main\<close> starts with \<open>json.load(sys.stdin)\<close>: the input is no JSON text
  (\<open>JSONDecodeError\<close>), or it decodes to a JSON value. An object keeps the last value of
  a repeated key. \<open>hook_input.get\<close> and \<open>tool_input.get\<close> are \<open>dict.get\<close>; on a
  value that is no \<open>dict\<close> the attribute lookup raises \<open>AttributeError\<close>, and
  \<open>re.match\<close> on a command that is no string raises \<open>TypeError\<close>. Nothing in
  \<open>main\<close> catches either.
\<close>

datatype json =
  JNull | JBool bool | JNumber int | JString string | JArray "json list"
  | JObject "(string \<times> json) list"

datatype stdin_content = NotJson | Json json

datatype py_exception = AttributeError | TypeError

fun dict_get :: "json \<Rightarrow> string \<Rightarrow> json \<Rightarrow> py_exception + json" where
  "dict_get (JObject items) key dflt =
     Inr (case map_of (rev items) key of Some v \<Rightarrow> v | None \<Rightarrow> dflt)"
| "dict_get JNull key dflt = Inl AttributeError"
| "dict_get (JBool b) key dflt = Inl AttributeError"
| "dict_get (JNumber n) key dflt = Inl AttributeError"
| "dict_get (JString s) key dflt = Inl AttributeError"
| "dict_get (JArray xs) key dflt = Inl AttributeError"

text \<open>
  The first lines of \<open>main\<close>, up to the first use of the command: the process exits
  with a status and no output, or ends with an uncaught exception, or goes on with the
  command string.
\<close>

datatype 'a step = Exit int | Uncaught py_exception | Proceed 'a

definition main_head :: "stdin_content \<Rightarrow> string step" where
  "main_head stdin =
     (case stdin of
        NotJson \<Rightarrow> Exit 0
      | Json hook_input \<Rightarrow>
          (case dict_get hook_input ''tool_name'' (JString []) of
             Inl e \<Rightarrow> Uncaught e
           | Inr tool_name \<Rightarrow>
               (case dict_get hook_input ''tool_input'' (JObject []) of
                  Inl e \<Rightarrow> Uncaught e
                | Inr tool_input \<Rightarrow>
                    if tool_name \<noteq> JString ''Bash'' then Exit 0
                    else (case dict_get tool_input ''command'' (JString []) of
                            Inl e \<Rightarrow> Uncaught e
                          | Inr command \<Rightarrow>
                              (case command of
                                 JString c \<Rightarrow> Proceed c
                               | JNull \<Rightarrow> Uncaught TypeError
                               | JBool b \<Rightarrow> Uncaught TypeError
                               | JNumber n \<Rightarrow> Uncaught TypeError
                               | JArray xs \<Rightarrow> Uncaught TypeError
                               | JObject items \<Rightarrow> Uncaught TypeError)))))"

section \<open>Command Interpreter: explicit packages\<close>

text \<open>
  \<open>parse_command_packages\<close> applies three regular expressions. Each is modelled by the
  scan the \<open>re\<close> engine performs for it (leftmost match, greedy quantifiers,
  alternatives in order).

  \<open>re.sub(patterns.get(manager, ""), "", command)\<close>: the pattern of a manager is
  anchored at the start of the command; it is the manager's name, at least one
  whitespace character, the first of its subcommands that follows, and the whitespace
  after it. For a manager without a pattern nothing is removed.
\<close>

definition subcommands :: "string \<Rightarrow> string list option" where
  "subcommands manager =
     (if manager = ''npm'' then Some [''install'', ''i'', ''add'']
      else if manager = ''yarn'' then Some [''add'']
      else if manager = ''pnpm'' then Some [''add'', ''install'']
      else if manager = ''bun'' then Some [''add'', ''install'']
      else if manager = ''pip'' then Some [''install'']
      else None)"

fun first_alternative :: "string list \<Rightarrow> string \<Rightarrow> string option" where
  "first_alternative [] s = None"
| "first_alternative (a # alts) s =
     (if prefix a s then Some (drop (length a) s) else first_alternative alts s)"

definition strip_prefix :: "string \<Rightarrow> string \<Rightarrow> string" where
  "strip_prefix manager command =
     (case subcommands manager of
        None \<Rightarrow> command
      | Some alts \<Rightarrow>
          if \<not> prefix manager command then command
          else (let r = drop (length manager) command in
                if takeWhile is_space r = [] then command
                else (case first_alternative alts (dropWhile is_space r) of
                        None \<Rightarrow> command
                      | Some rest \<Rightarrow> dropWhile is_space rest)))"

text \<open>
  \<open>re.sub(r"\s+--?\w+(\s+\S+)?", " ", cmd)\<close>. A match starts at a whitespace character;
  \<open>match_flag\<close> is given the text after the run of whitespace and returns what follows
  the match: one or two dashes, a run of word characters, and, when whitespace and then
  a character that is no whitespace follow, that whitespace and the run of characters
  that are no whitespace. Each match is replaced by one blank.
\<close>

definition match_flag :: "string \<Rightarrow> string option" where
  "match_flag r =
     (case r of
        [] \<Rightarrow> None
      | d # r2 \<Rightarrow>
          if d \<noteq> CHR ''-'' then None
          else (let r3 = (case r2 of [] \<Rightarrow> r2 | d2 # r2' \<Rightarrow> if d2 = CHR ''-'' then r2' else r2) in
                if takeWhile is_word r3 = [] then None
                else (let r4 = dropWhile is_word r3; r5 = dropWhile is_space r4 in
                      if takeWhile is_space r4 \<noteq> [] \<and> r5 \<noteq> []
                      then Some (dropWhile (\<lambda>c. \<not> is_space c) r5)
                      else Some r4)))"

lemma match_flag_suffix: "match_flag r = Some rest \<Longrightarrow> suffix rest r"
proof -
  assume m: "match_flag r = Some rest"
  then obtain r2 where r: "r = CHR ''-'' # r2"
    by (cases r) (auto simp: match_flag_def split: if_splits)
  define r3 where "r3 = (case r2 of [] \<Rightarrow> r2 | d2 # r2' \<Rightarrow> if d2 = CHR ''-'' then r2' else r2)"
  have s3: "suffix r3 r2"
    by (cases r2) (auto simp: r3_def suffix_ConsI)
  define r4 where "r4 = dropWhile is_word r3"
  have s4: "suffix r4 r3" by (simp add: r4_def suffix_dropWhile)
  have "rest = r4 \<or> rest = dropWhile (\<lambda>c. \<not> is_space c) (dropWhile is_space r4)"
    using m r by (auto simp: match_flag_def r3_def r4_def Let_def split: if_splits)
  then have "suffix rest r4"
    by (auto intro: suffix_order.trans suffix_dropWhile)
  with s4 s3 have "suffix rest r2" by (meson suffix_order.trans)
  with r show ?thesis by (simp add: suffix_ConsI)
qed

function remove_flags :: "string \<Rightarrow> string" where
  "remove_flags [] = []"
| "remove_flags (c # cs) =
     (if is_space c
      then (case match_flag (dropWhile is_space cs) of
              Some rest \<Rightarrow> CHR '' '' # remove_flags rest
            | None \<Rightarrow> c # remove_flags cs)
      else c # remove_flags cs)"
  by pat_completeness auto
termination
proof (relation "measure length")
  fix c cs rest
  assume "match_flag (dropWhile is_space cs) = Some rest"
  then have "suffix rest (dropWhile is_space cs)" by (rule match_flag_suffix)
  then have "length rest \<le> length (dropWhile is_space cs)" by (rule suffix_length_le)
  also have "\<dots> \<le> length cs" by (rule length_dropWhile_le)
  finally show "(rest, c # cs) \<in> measure length" by simp
qed simp_all

text \<open>\<open>cmd.split()\<close>: the maximal runs of characters that are no whitespace.\<close>

fun split_acc :: "string \<Rightarrow> string \<Rightarrow> string list" where
  "split_acc cur [] = (if cur = [] then [] else [cur])"
| "split_acc cur (c # cs) =
     (if is_space c then (if cur = [] then split_acc [] cs else cur # split_acc [] cs)
      else split_acc (cur @ [c]) cs)"

definition py_split :: "string \<Rightarrow> string list" where
  "py_split s = split_acc [] s"

text \<open>
  \<open>re.sub(r"[@=<>~!]+.*$", "", pkg)\<close>. At a character of the class the match runs to
  the end of the line (\<open>.\<close> does not match a newline) and needs \<open>$\<close> there: the end of
  the string, or the newline that ends the string. Otherwise the scan goes on.
\<close>

definition is_spec :: "char \<Rightarrow> bool" where
  "is_spec c = (c \<in> set ''@=<>~!'')"

fun sub_spec :: "string \<Rightarrow> string" where
  "sub_spec [] = []"
| "sub_spec (c # cs) =
     (if is_spec c
      then (let rest = dropWhile (\<lambda>x. x \<noteq> CHR 0x0A) cs in
            if rest = [] then []
            else if rest = [CHR 0x0A] then [CHR 0x0A]
            else c # sub_spec cs)
      else c # sub_spec cs)"

text \<open>The loop over the tokens, and the function itself.\<close>

fun packages_loop :: "string list \<Rightarrow> string list \<Rightarrow> string list" where
  "packages_loop [] packages = packages"
| "packages_loop (pkg # pkgs) packages =
     (if pkg \<noteq> [] \<and> \<not> prefix ''-'' pkg
      then (let name = sub_spec pkg in
            if name \<noteq> [] then packages_loop pkgs (packages @ [name])
            else packages_loop pkgs packages)
      else packages_loop pkgs packages)"

definition parse_command_packages :: "string \<Rightarrow> string \<Rightarrow> string list" where
  "parse_command_packages command manager =
     (let cmd = strip_prefix manager command;
          cmd = remove_flags cmd
      in packages_loop (py_split cmd) [])"

text \<open>
  The extraction in the words of the specification: the tokens that remain after the
  prefix and the flags are stripped and the tokens starting with a dash are discarded,
  and the bare name of a token, which is the token up to its first character among
  \<open>@ = < > ~ !\<close>.
\<close>

definition remaining_tokens :: "string \<Rightarrow> string \<Rightarrow> string list" where
  "remaining_tokens command manager =
     filter (\<lambda>token. \<not> prefix ''-'' token)
       (py_split (remove_flags (strip_prefix manager command)))"

definition bare_name :: "string \<Rightarrow> string" where
  "bare_name token = takeWhile (\<lambda>c. c \<notin> set ''@=<>~!'') token"

section \<open>Properties of the Version Extractor\<close>

lemma search_digits_no_digit:
  "\<forall>c \<in> set s. \<not> is_digit c \<Longrightarrow> search_digits s = None"
  by (induction s) auto

lemma takeWhile_run:
  assumes "\<forall>c \<in> set run. is_digit c" and "post = [] \<or> \<not> is_digit (hd post)"
  shows "takeWhile is_digit (run @ post) = run"
proof (cases post)
  case Nil
  with assms(1) show ?thesis by simp
next
  case (Cons p ps)
  with assms have "\<not> is_digit p" by simp
  with assms(1) Cons show ?thesis by (simp add: takeWhile_append2)
qed

lemma search_digits_first_run:
  assumes "\<forall>c \<in> set pre. \<not> is_digit c" and "run \<noteq> []" and "\<forall>c \<in> set run. is_digit c"
    and "post = [] \<or> \<not> is_digit (hd post)"
  shows "search_digits (pre @ run @ post) = Some run"
  using assms(1)
proof (induction pre)
  case Nil
  obtain r rs where r: "run = r # rs" using assms(2) by (cases run) auto
  have "takeWhile is_digit (rs @ post) = rs"
    using takeWhile_run [of rs post] assms(3,4) r by simp
  with r assms(3) show ?case by simp
next
  case (Cons p pre)
  then show ?case by simp
qed

lemma search_digits_scan:
  "search_digits s =
     (if \<exists>c \<in> set s. is_digit c
      then Some (takeWhile is_digit (dropWhile (\<lambda>c. \<not> is_digit c) s)) else None)"
  by (induction s) auto

text \<open>
  Claim C2. For every version string, \<open>get_major_version\<close> returns the integer value of
  the first maximal run of decimal digits of the string: whenever the string splits into
  a part without digits, a non-empty run of digits, and a rest that is empty or starts
  with a character that is no digit, the result is the value of that run. For every
  string with no digit, the empty string among them, the result is absent.
\<close>

theorem get_major_version_first_digit_run:
  "(\<forall>pre run post.
      s = pre @ run @ post \<and> (\<forall>c \<in> set pre. \<not> is_digit c) \<and>
      run \<noteq> [] \<and> (\<forall>c \<in> set run. is_digit c) \<and> (post = [] \<or> \<not> is_digit (hd post))
      \<longrightarrow> get_major_version s = Some (py_int run)) \<and>
   ((\<forall>c \<in> set s. \<not> is_digit c) \<longrightarrow> get_major_version s = None)"
proof (intro conjI allI impI)
  fix pre run post
  assume h: "s = pre @ run @ post \<and> (\<forall>c \<in> set pre. \<not> is_digit c) \<and>
      run \<noteq> [] \<and> (\<forall>c \<in> set run. is_digit c) \<and> (post = [] \<or> \<not> is_digit (hd post))"
  then have "search_digits s = Some run"
    using search_digits_first_run [of pre run post] by simp
  moreover from h have "s \<noteq> []" by simp
  ultimately show "get_major_version s = Some (py_int run)"
    by (simp add: get_major_version_def)
next
  assume "\<forall>c \<in> set s. \<not> is_digit c"
  then show "get_major_version s = None"
    by (simp add: get_major_version_def search_digits_no_digit)
qed

theorem get_major_version_first_digit_run_witness:
  "get_major_version ''>=14.0.0'' = Some 14 \<and> get_major_version ''latest'' = None \<and>
   get_major_version '''' = None"
proof -
  have a: "''>=14.0.0'' = ''>='' @ ''14'' @ ''.0.0'' \<and> (\<forall>c \<in> set ''>=''. \<not> is_digit c) \<and>
      ''14'' \<noteq> [] \<and> (\<forall>c \<in> set ''14''. is_digit c) \<and> (''.0.0'' = [] \<or> \<not> is_digit (hd ''.0.0''))"
    by (simp add: is_digit_def)
  have "get_major_version ''>=14.0.0'' = Some (py_int ''14'')"
    using get_major_version_first_digit_run [of "''>=14.0.0''"] a by blast
  moreover have "py_int ''14'' = 14" by (simp add: py_int_def digit_val_def)
  moreover have "\<forall>c \<in> set ''latest''. \<not> is_digit c" by (simp add: is_digit_def)
  then have "get_major_version ''latest'' = None"
    using get_major_version_first_digit_run [of "''latest''"] by blast
  moreover have "get_major_version '''' = None"
    using get_major_version_first_digit_run [of "''''"] by simp
  ultimately show ?thesis by simp
qed

lemma first_digit_run_exists:
  assumes "\<exists>c \<in> set s. is_digit c"
  shows "\<exists>pre run post. s = pre @ run @ post \<and> (\<forall>c \<in> set pre. \<not> is_digit c) \<and>
      run \<noteq> [] \<and> (\<forall>c \<in> set run. is_digit c) \<and> (post = [] \<or> \<not> is_digit (hd post))"
proof -
  let ?pre = "takeWhile (\<lambda>c. \<not> is_digit c) s"
  let ?rest = "dropWhile (\<lambda>c. \<not> is_digit c) s"
  let ?run = "takeWhile is_digit ?rest"
  let ?post = "dropWhile is_digit ?rest"
  have "s = ?pre @ ?run @ ?post" by simp
  moreover have "\<forall>c \<in> set ?pre. \<not> is_digit c" by (auto dest: set_takeWhileD)
  moreover have "?rest \<noteq> []" using assms by auto
  then have "is_digit (hd ?rest)" using hd_dropWhile [of "\<lambda>c. \<not> is_digit c" s] by simp
  with \<open>?rest \<noteq> []\<close> have "?run \<noteq> []" by (cases ?rest) auto
  moreover have "\<forall>c \<in> set ?run. is_digit c" by (auto dest: set_takeWhileD)
  moreover have "?post = [] \<or> \<not> is_digit (hd ?post)"
    using hd_dropWhile [of is_digit ?rest] by blast
  ultimately show ?thesis by blast
qed

section \<open>Properties of the Diff Resolver\<close>

text \<open>
  Claim C1. For every package name, installed-version string and registry kind, and
  whatever the registries answer, \<open>check_version_diff\<close> returns nothing when the installed
  major is absent, when the latest version is unavailable (no answer, or an empty one),
  when the latest major is absent, and when the two majors are equal; and every diff it
  returns has different majors, which are the majors of the installed and of the latest
  version, and carries the package, the installed version and the latest version it was
  given.
\<close>

theorem check_version_diff_contract:
  "(get_major_version installed_v = None \<longrightarrow>
      check_version_diff npm pypi pkg installed_v registry = None) \<and>
   (registry_latest npm pypi registry pkg = None \<or> registry_latest npm pypi registry pkg = Some [] \<longrightarrow>
      check_version_diff npm pypi pkg installed_v registry = None) \<and>
   (\<forall>latest. registry_latest npm pypi registry pkg = Some latest \<and> get_major_version latest = None \<longrightarrow>
      check_version_diff npm pypi pkg installed_v registry = None) \<and>
   (\<forall>latest. registry_latest npm pypi registry pkg = Some latest \<and>
      get_major_version latest = get_major_version installed_v \<longrightarrow>
      check_version_diff npm pypi pkg installed_v registry = None) \<and>
   (\<forall>d. check_version_diff npm pypi pkg installed_v registry = Some d \<longrightarrow>
      installed_major d \<noteq> latest_major d \<and>
      package d = pkg \<and> installed_version d = installed_v \<and>
      registry_latest npm pypi registry pkg = Some (latest_version d) \<and>
      get_major_version installed_v = Some (installed_major d) \<and>
      get_major_version (latest_version d) = Some (latest_major d))"
proof -
  let ?r = "check_version_diff npm pypi pkg installed_v registry"
  let ?l = "registry_latest npm pypi registry pkg"
  have a: "get_major_version installed_v = None \<longrightarrow> ?r = None"
    by (simp add: check_version_diff_def)
  have b: "?l = None \<or> ?l = Some [] \<longrightarrow> ?r = None"
    by (auto simp: check_version_diff_def split: option.splits)
  have c: "\<forall>latest. ?l = Some latest \<and> get_major_version latest = None \<longrightarrow> ?r = None"
    by (auto simp: check_version_diff_def split: option.splits)
  have d: "\<forall>latest. ?l = Some latest \<and>
      get_major_version latest = get_major_version installed_v \<longrightarrow> ?r = None"
    by (auto simp: check_version_diff_def split: option.splits)
  have e: "\<forall>d. ?r = Some d \<longrightarrow>
      installed_major d \<noteq> latest_major d \<and>
      package d = pkg \<and> installed_version d = installed_v \<and>
      ?l = Some (latest_version d) \<and>
      get_major_version installed_v = Some (installed_major d) \<and>
      get_major_version (latest_version d) = Some (latest_major d)"
    by (auto simp: check_version_diff_def split: option.splits if_splits)
  from a b c d e show ?thesis by (intro conjI)
qed

lemma get_major_version_examples:
  "get_major_version ''^17.0.2'' = Some 17" "get_major_version ''18.2.0'' = Some 18"
  "get_major_version ''17.9.0'' = Some 17" "get_major_version ''workspace'' = None"
  "get_major_version ''next'' = None"
  by (simp_all add: get_major_version_def is_digit_def py_int_def digit_val_def)

theorem check_version_diff_contract_witness:
  "check_version_diff (\<lambda>p. Some ''18.2.0'') (\<lambda>p. None) ''react'' ''workspace'' ''npm'' = None \<and>
   check_version_diff (\<lambda>p. Some ''18.2.0'') (\<lambda>p. None) ''flask'' ''^17.0.2'' ''pypi'' = None \<and>
   check_version_diff (\<lambda>p. Some ''next'') (\<lambda>p. None) ''react'' ''^17.0.2'' ''npm'' = None \<and>
   check_version_diff (\<lambda>p. Some ''17.9.0'') (\<lambda>p. None) ''react-dom'' ''^17.0.2'' ''npm'' = None \<and>
   check_version_diff (\<lambda>p. Some ''18.2.0'') (\<lambda>p. None) ''react'' ''^17.0.2'' ''npm'' =
     Some \<lparr>package = ''react'', installed_version = ''^17.0.2'', installed_major = 17,
           latest_version = ''18.2.0'', latest_major = 18\<rparr> \<and>
   (17::int) \<noteq> 18"
proof -
  have 1: "check_version_diff (\<lambda>p. Some ''18.2.0'') (\<lambda>p. None) ''react'' ''workspace'' ''npm'' = None"
    using check_version_diff_contract
      [of "''workspace''" "\<lambda>p. Some ''18.2.0''" "\<lambda>p. None" "''react''" "''npm''"]
    by (simp add: get_major_version_examples)
  have 2: "check_version_diff (\<lambda>p. Some ''18.2.0'') (\<lambda>p. None) ''flask'' ''^17.0.2'' ''pypi'' = None"
    using check_version_diff_contract
      [of "''^17.0.2''" "\<lambda>p. Some ''18.2.0''" "\<lambda>p. None" "''flask''" "''pypi''"]
    by (simp add: registry_latest_def)
  have 3: "check_version_diff (\<lambda>p. Some ''next'') (\<lambda>p. None) ''react'' ''^17.0.2'' ''npm'' = None"
    using check_version_diff_contract
      [of "''^17.0.2''" "\<lambda>p. Some ''next''" "\<lambda>p. None" "''react''" "''npm''"]
    by (simp add: registry_latest_def get_major_version_examples)
  have 4: "check_version_diff (\<lambda>p. Some ''17.9.0'') (\<lambda>p. None) ''react-dom'' ''^17.0.2'' ''npm'' = None"
    using check_version_diff_contract
      [of "''^17.0.2''" "\<lambda>p. Some ''17.9.0''" "\<lambda>p. None" "''react-dom''" "''npm''"]
    by (simp add: registry_latest_def get_major_version_examples)
  let ?d = "\<lparr>package = ''react'', installed_version = ''^17.0.2'', installed_major = 17,
           latest_version = ''18.2.0'', latest_major = 18\<rparr>"
  have 5: "check_version_diff (\<lambda>p. Some ''18.2.0'') (\<lambda>p. None) ''react'' ''^17.0.2'' ''npm'' = Some ?d"
    by (simp add: check_version_diff_def registry_latest_def get_major_version_examples)
  have "installed_major ?d \<noteq> latest_major ?d"
    using check_version_diff_contract
      [of "''^17.0.2''" "\<lambda>p. Some ''18.2.0''" "\<lambda>p. None" "''react''" "''npm''"] 5
    by blast
  then have 6: "(17::int) \<noteq> 18" by simp
  from 1 2 3 4 5 6 show ?thesis by blast
qed

section \<open>Properties of the Redundant-Entry Filter\<close>

lemma filter_loop_filter:
  "filter_loop B diffs filtered = filtered @ filter (\<lambda>d. \<not> redundant B d) diffs"
  by (induction diffs arbitrary: filtered) (simp_all add: redundant_def Let_def)

lemma filter_redundant_types_filter:
  "filter_redundant_types diffs =
     filter (\<lambda>d. \<not> redundant (base_packages_of diffs) d) diffs"
  by (simp add: filter_redundant_types_def filter_loop_filter)

lemma base_packages_of_filtered:
  "base_packages_of (filter_redundant_types diffs) = base_packages_of diffs"
proof -
  have "filter (\<lambda>d. \<not> prefix ''@types/'' (package d))
          (filter (\<lambda>d. \<not> redundant (base_packages_of diffs) d) diffs) =
        filter (\<lambda>d. \<not> prefix ''@types/'' (package d)) diffs"
    unfolding filter_filter by (rule filter_cong) (auto simp: redundant_def)
  then show ?thesis
    by (simp add: base_packages_of_def filter_redundant_types_filter)
qed

text \<open>
  Claim C6. For every list of diffs, filtering twice gives the same list as filtering
  once, and the filtered list is a subsequence of the input: the surviving diffs keep
  their relative order.
\<close>

theorem filter_redundant_types_idempotent_subseq:
  "filter_redundant_types (filter_redundant_types diffs) = filter_redundant_types diffs \<and>
   subseq (filter_redundant_types diffs) diffs"
proof
  have "filter_redundant_types (filter_redundant_types diffs) =
        filter (\<lambda>d. \<not> redundant (base_packages_of diffs) d) (filter_redundant_types diffs)"
    using filter_redundant_types_filter [of "filter_redundant_types diffs"]
    by (simp add: base_packages_of_filtered)
  also have "\<dots> = filter_redundant_types diffs"
    by (simp add: filter_redundant_types_filter)
  finally show "filter_redundant_types (filter_redundant_types diffs) = filter_redundant_types diffs" .
next
  show "subseq (filter_redundant_types diffs) diffs"
    by (simp add: filter_redundant_types_filter)
qed

section \<open>Properties of the cache and of the research stage\<close>

subsection \<open>Keys\<close>

lemma digit_char_is_digit: "k < 10 \<Longrightarrow> is_digit (''0123456789'' ! k)"
  unfolding is_digit_def by (rule nth_mem) simp

lemma str_nat_digits: "\<forall>c \<in> set (str_nat n). is_digit c"
proof (induction n rule: str_nat.induct)
  case (1 n)
  show ?case
  proof (cases "n < 10")
    case True
    then show ?thesis using digit_char_is_digit [of n] by (subst str_nat.simps) simp
  next
    case False
    have "n mod 10 < 10" by simp
    from digit_char_is_digit [OF this] 1 False show ?thesis by (subst str_nat.simps) simp
  qed
qed

lemma colon_no_digit: "\<not> is_digit (CHR '':'')"
  by (simp add: is_digit_def)

lemma py_str_no_colon: "CHR '':'' \<notin> set (py_str i)"
proof
  assume a: "CHR '':'' \<in> set (py_str i)"
  show False
  proof (cases "i < 0")
    case True
    with a have "CHR '':'' \<in> set (str_nat (nat (- i)))" by (simp add: py_str_def)
    then show False using str_nat_digits colon_no_digit by blast
  next
    case False
    with a have "CHR '':'' \<in> set (str_nat (nat i))" by (simp add: py_str_def)
    then show False using str_nat_digits colon_no_digit by blast
  qed
qed

lemma dropWhile_skip:
  "\<forall>c \<in> set t. P c \<Longrightarrow> \<not> P y \<Longrightarrow> dropWhile P (t @ y # ys) = y # ys"
  by (induction t) auto

lemma cache_key_last_colon:
  "dropWhile (\<lambda>c. c \<noteq> CHR '':'') (rev (cache_key p a b)) = CHR '':'' # rev p"
proof -
  let ?t = "rev (py_str b) @ ''>-'' @ rev (py_str a)"
  have e: "rev (cache_key p a b) = ?t @ CHR '':'' # rev p"
    by (simp add: cache_key_def)
  have t: "\<forall>c \<in> set ?t. c \<noteq> CHR '':''"
    using py_str_no_colon [of a] py_str_no_colon [of b] by auto
  have "dropWhile (\<lambda>c. c \<noteq> CHR '':'') (?t @ CHR '':'' # rev p) = CHR '':'' # rev p"
    by (rule dropWhile_skip [OF t]) simp
  then show ?thesis unfolding e .
qed

lemma cache_key_package_inj:
  assumes "cache_key p a b = cache_key p' a' b'"
  shows "p = p'"
proof -
  have "CHR '':'' # rev p = CHR '':'' # rev p'"
    using cache_key_last_colon [of p a b] cache_key_last_colon [of p' a' b']
    unfolding assms by (rule trans [OF sym])
  then show ?thesis by simp
qed


lemma key_of_package_inj: "key_of d = key_of d' \<Longrightarrow> package d = package d'"
  unfolding key_of_def by (rule cache_key_package_inj)

lemma distinct_keys:
  assumes "distinct (map package ds)"
  shows "distinct (map key_of ds)"
proof -
  from assms have d: "distinct ds" and i: "inj_on package (set ds)"
    by (simp_all add: distinct_map)
  have "inj_on key_of (set ds)"
  proof (rule inj_onI)
    fix x y assume "x \<in> set ds" "y \<in> set ds" "key_of x = key_of y"
    then show "x = y" using i key_of_package_inj [of x y] by (auto dest: inj_onD)
  qed
  with d show ?thesis by (simp add: distinct_map)
qed

subsection \<open>The loops of the research stage\<close>

lemma split_cached_eq:
  "split_cached c diffs cr ud =
     (cr @ cached_results_of c diffs, ud @ uncached_diffs_of c diffs)"
  by (induction diffs arbitrary: cr ud)
     (auto simp: key_of_def cached_results_of_def uncached_diffs_of_def Let_def split: option.splits)

lemma collect_results: "fst (collect fs rs c) = rs @ map result_of fs"
  by (induction fs rs c rule: collect.induct) simp_all

lemma collect_cache_other:
  "\<forall>f \<in> set fs. stored f \<longrightarrow> key_of (result_of f) \<noteq> k \<Longrightarrow> snd (collect fs rs c) k = c k"
proof (induction fs rs c rule: collect.induct)
  case (1 rs c)
  then show ?case by simp
next
  case (2 d r fs rs c)
  then have k: "\<not> prefix ''('' (research r) \<Longrightarrow> key_of r \<noteq> k" by simp
  from 2 show ?case
  proof (cases "prefix ''('' (research r)")
    case True
    with 2 show ?thesis by simp
  next
    case False
    with 2 have "snd (collect fs (rs @ [r]) (store c (key_of r) (research r))) k =
        (store c (key_of r) (research r)) k"
      by (simp add: key_of_def)
    with False k show ?thesis by (simp add: key_of_def store_def)
  qed
next
  case (3 d e fs rs c)
  then show ?case by simp
qed

lemma collect_cache_stored:
  "f \<in> set fs \<Longrightarrow> stored f \<Longrightarrow> distinct (map (\<lambda>f. key_of (result_of f)) fs) \<Longrightarrow>
   snd (collect fs rs c) (key_of (result_of f)) = Some (research (result_of f))"
proof (induction fs rs c rule: collect.induct)
  case (1 rs c)
  then show ?case by simp
next
  case (2 d r fs rs c)
  show ?case
  proof (cases "f = (d, Inr r)")
    case True
    have "\<forall>g \<in> set fs. stored g \<longrightarrow> key_of (result_of g) \<noteq> key_of r"
      using "2.prems"(3) by (fastforce simp: image_iff)
    from collect_cache_other [OF this] True "2.prems"(2) show ?thesis
      by (simp add: key_of_def store_def)
  next
    case False
    with "2.prems" have "f \<in> set fs" "distinct (map (\<lambda>f. key_of (result_of f)) fs)" by auto
    with "2.IH" "2.prems"(2) show ?thesis by (cases "prefix ''('' (research r)") auto
  qed
next
  case (3 d e fs rs c)
  then show ?case by auto
qed


lemma main_run:
  "main_from_diffs run completion how diffs w =
     (if diffs = [] then (Exit0, w)
      else
        let c = fst (load_cache w); ds = filter_redundant_types diffs;
            unc = uncached_diffs_of c ds; fs = completion (submit run unc)
        in if unc \<noteq> []
           then (Exit2 (cached_results_of c ds @ map result_of fs),
                 save_cache how (snd (collect fs (cached_results_of c ds) c))
                   (w\<lparr>io_log := io_log w @ CacheRead # map spawned unc\<rparr>))
           else (Exit2 (cached_results_of c ds), w\<lparr>io_log := io_log w @ [CacheRead]\<rparr>))"
  by (simp add: main_from_diffs_def load_cache_def split_cached_eq Let_def case_prod_beta
      collect_results)

lemma key_of_worker: "key_of (research_worker run d) = key_of d"
  by (simp add: research_worker_def with_research_def key_of_def)

lemma research_worker_text:
  "research (research_worker run d) =
     spawn_research run (package d) (installed_major d) (latest_major d)"
  by (simp add: research_worker_def with_research_def)

lemma submit_keys: "map (\<lambda>f. key_of (result_of f)) (submit run ds) = map key_of ds"
  by (simp add: submit_def key_of_worker)

lemma completion_set:
  assumes "\<forall>fs. mset (completion fs) = mset (fs :: future list)"
  shows "set (completion fs) = set fs"
  using assms mset_eq_setD by blast

lemma completion_distinct_keys:
  assumes "\<forall>fs. mset (completion fs) = mset (fs :: future list)"
    and "distinct (map key_of ds)"
  shows "distinct (map (\<lambda>f. key_of (result_of f)) (completion (submit run ds)))"
proof -
  have "mset (map (\<lambda>f. key_of (result_of f)) (completion (submit run ds))) =
        mset (map (\<lambda>f. key_of (result_of f)) (submit run ds))"
    using assms(1) by (metis mset_map)
  then have "distinct (map (\<lambda>f. key_of (result_of f)) (completion (submit run ds))) =
        distinct (map key_of ds)"
    using mset_eq_imp_distinct_iff submit_keys by metis
  with assms(2) show ?thesis by simp
qed

lemma uncached_distinct_keys:
  assumes "distinct (map package diffs)"
  shows "distinct (map key_of (uncached_diffs_of c (filter_redundant_types diffs)))"
proof -
  have "distinct (map package (uncached_diffs_of c (filter_redundant_types diffs)))"
    using assms
    by (simp add: uncached_diffs_of_def filter_redundant_types_filter distinct_map_filter)
  then show ?thesis by (rule distinct_keys)
qed


lemma load_after_save:
  "fst (load_cache (save_cache how c' w)) =
     (case how of Written \<Rightarrow> c' | NotOpened \<Rightarrow> fst (load_cache w) | Interrupted \<Rightarrow> Map.empty)"
  by (cases how) (simp_all add: load_cache_def save_cache_def)

lemma load_cache_log_update [simp]: "fst (load_cache (w\<lparr>io_log := l\<rparr>)) = fst (load_cache w)"
  by (simp add: load_cache_def)

subsection \<open>Failed research\<close>



subsection \<open>Which fresh results are cached\<close>

lemma collected_cache_entry:
  assumes dk: "distinct (map key_of unc)"
    and perm: "\<forall>fs. mset (completion fs) = mset fs"
    and d: "d \<in> set unc"
  shows "snd (collect (completion (submit run unc)) rs c) (key_of d) =
     (if prefix ''('' (spawn_research run (package d) (installed_major d) (latest_major d))
      then c (key_of d)
      else Some (spawn_research run (package d) (installed_major d) (latest_major d)))"
proof -
  let ?fs = "completion (submit run unc)"
  let ?f = "(d, Inr (research_worker run d)) :: future"
  let ?text = "spawn_research run (package d) (installed_major d) (latest_major d)"
  have mem: "?f \<in> set ?fs"
    using d completion_set [OF perm, of "submit run unc"] by (auto simp: submit_def)
  show ?thesis
  proof (cases "prefix ''('' ?text")
    case True
    have "\<forall>f \<in> set ?fs. stored f \<longrightarrow> key_of (result_of f) \<noteq> key_of d"
    proof (intro ballI impI)
      fix f assume f: "f \<in> set ?fs" and s: "stored f"
      from f have "f \<in> set (submit run unc)" using completion_set [OF perm] by simp
      then obtain d' where d': "d' \<in> set unc" and fd: "f = (d', Inr (research_worker run d'))"
        by (auto simp: submit_def)
      show "key_of (result_of f) \<noteq> key_of d"
      proof
        assume "key_of (result_of f) = key_of d"
        with fd have "key_of d' = key_of d" by (simp add: key_of_worker)
        with dk d' d have "d' = d" by (meson distinct_map inj_onD)
        with fd s True show False by (simp add: research_worker_text)
      qed
    qed
    from collect_cache_other [OF this] True show ?thesis by simp
  next
    case False
    then have "stored ?f" by (simp add: research_worker_text)
    from collect_cache_stored [OF mem this completion_distinct_keys [OF perm dk]] False
    show ?thesis by (simp add: key_of_worker research_worker_text)
  qed
qed

text \<open>
  Claim C10. Take a run over diffs with distinct package names, futures completing in any
  order, a cache file that can be written, and a diff that is not in the cache. Its
  fresh result is part of the output, and the document written to the cache file maps
  the key of the diff to the research text if and only if the text does not start with
  a parenthesis; otherwise the key stays absent. When the agent completes, the text is
  its stripped standard output whatever the return code is: an agent that exits with a
  non-zero status and prints nothing has the empty text cached, and genuine output that
  starts with a parenthesis is not cached.
\<close>

theorem fresh_result_cached_iff_no_parenthesis:
  assumes "distinct (map package diffs)"
    and "\<forall>fs. mset (completion fs) = mset fs"
    and "d \<in> set (filter_redundant_types diffs)"
    and "fst (load_cache w) (key_of d) = None"
  shows "(\<forall>returncode stdout.
            run (package d) (installed_major d) (latest_major d) = Completed returncode stdout \<longrightarrow>
            spawn_research run (package d) (installed_major d) (latest_major d) = py_strip stdout) \<and>
         (\<exists>results w' cache'.
            main_from_diffs run completion Written diffs w = (Exit2 results, w') \<and>
            research_worker run d \<in> set results \<and>
            cache_file w' = Document cache' \<and>
            cache' (key_of d) =
              (if prefix ''('' (spawn_research run (package d) (installed_major d) (latest_major d))
               then None
               else Some (spawn_research run (package d) (installed_major d) (latest_major d))))"
proof -
  let ?c = "fst (load_cache w)"
  let ?ds = "filter_redundant_types diffs"
  let ?unc = "uncached_diffs_of ?c ?ds"
  let ?fs = "completion (submit run ?unc)"
  let ?cached = "cached_results_of ?c ?ds"
  let ?c' = "snd (collect ?fs ?cached ?c)"
  let ?w2 = "w\<lparr>io_log := io_log w @ CacheRead # map spawned ?unc\<rparr>"
  let ?text = "spawn_research run (package d) (installed_major d) (latest_major d)"
  have strip: "\<forall>returncode stdout.
      run (package d) (installed_major d) (latest_major d) = Completed returncode stdout \<longrightarrow>
      ?text = py_strip stdout"
    by (simp add: spawn_research_def)
  have d_unc: "d \<in> set ?unc" using assms(3,4) by (simp add: uncached_diffs_of_def)
  then have unc: "?unc \<noteq> []" by auto
  have ne: "diffs \<noteq> []" using assms(3) by (auto simp: filter_redundant_types_filter)
  have run: "main_from_diffs run completion Written diffs w =
      (Exit2 (?cached @ map result_of ?fs), save_cache Written ?c' ?w2)"
    using ne unc by (simp add: main_run Let_def)
  have "(d, Inr (research_worker run d)) \<in> set ?fs"
    using d_unc completion_set [OF assms(2), of "submit run ?unc"] by (auto simp: submit_def)
  then have "result_of (d, Inr (research_worker run d)) \<in> result_of ` set ?fs"
    by (rule imageI)
  then have member: "research_worker run d \<in> set (?cached @ map result_of ?fs)" by simp
  have saved: "cache_file (save_cache Written ?c' ?w2) = Document ?c'"
    by (simp add: save_cache_def)
  have "?c' (key_of d) = (if prefix ''('' ?text then ?c (key_of d) else Some ?text)"
    using uncached_distinct_keys [OF assms(1)] assms(2) d_unc by (rule collected_cache_entry)
  with assms(4) have entry: "?c' (key_of d) = (if prefix ''('' ?text then None else Some ?text)"
    by simp
  from strip run member saved entry show ?thesis by blast
qed

lemma py_strip_examples:
  "py_strip [] = []" "py_strip '' (beta) removed '' = ''(beta) removed''"
  by (simp_all add: py_strip_def is_space_def)

theorem fresh_result_cached_iff_no_parenthesis_witness:
  "distinct (map package
     [\<lparr>package = ''react'', installed_version = ''^17.0.2'', installed_major = 17,
       latest_version = ''18.2.0'', latest_major = 18\<rparr>]) \<and>
   (\<forall>fs :: future list. mset (rev fs) = mset fs) \<and>
   fst (load_cache \<lparr>cache_file = Missing, io_log = []\<rparr>)
     (key_of \<lparr>package = ''react'', installed_version = ''^17.0.2'', installed_major = 17,
       latest_version = ''18.2.0'', latest_major = 18\<rparr>) = None \<and>
   spawn_research (\<lambda>p a b. Completed 1 []) ''react'' 17 18 = [] \<and>
   (\<exists>results w' cache'.
      main_from_diffs (\<lambda>p a b. Completed 1 []) rev Written
        [\<lparr>package = ''react'', installed_version = ''^17.0.2'', installed_major = 17,
          latest_version = ''18.2.0'', latest_major = 18\<rparr>]
        \<lparr>cache_file = Missing, io_log = []\<rparr> = (Exit2 results, w') \<and>
      cache_file w' = Document cache' \<and>
      cache' (key_of \<lparr>package = ''react'', installed_version = ''^17.0.2'', installed_major = 17,
          latest_version = ''18.2.0'', latest_major = 18\<rparr>) = Some []) \<and>
   spawn_research (\<lambda>p a b. Completed 0 '' (beta) removed '') ''react'' 17 18 = ''(beta) removed'' \<and>
   (\<exists>results w' cache'.
      main_from_diffs (\<lambda>p a b. Completed 0 '' (beta) removed '') rev Written
        [\<lparr>package = ''react'', installed_version = ''^17.0.2'', installed_major = 17,
          latest_version = ''18.2.0'', latest_major = 18\<rparr>]
        \<lparr>cache_file = Missing, io_log = []\<rparr> = (Exit2 results, w') \<and>
      cache_file w' = Document cache' \<and>
      cache' (key_of \<lparr>package = ''react'', installed_version = ''^17.0.2'', installed_major = 17,
          latest_version = ''18.2.0'', latest_major = 18\<rparr>) = None)"
proof -
  let ?d = "\<lparr>package = ''react'', installed_version = ''^17.0.2'', installed_major = 17,
       latest_version = ''18.2.0'', latest_major = 18\<rparr>"
  let ?w = "\<lparr>cache_file = Missing, io_log = []\<rparr>"
  have 1: "distinct (map package [?d])" by simp
  have 2: "\<forall>fs :: future list. mset (rev fs) = mset fs" by simp
  have 3: "?d \<in> set (filter_redundant_types [?d])"
    by (simp add: filter_redundant_types_filter redundant_def)
  have 4: "fst (load_cache ?w) (key_of ?d) = None" by (simp add: load_cache_def)
  have a: "spawn_research (\<lambda>p a b. Completed 1 []) ''react'' 17 18 = []"
    by (simp add: spawn_research_def py_strip_examples)
  have b: "spawn_research (\<lambda>p a b. Completed 0 '' (beta) removed '') ''react'' 17 18 =
      ''(beta) removed''"
    by (simp add: spawn_research_def py_strip_examples)
  from fresh_result_cached_iff_no_parenthesis [OF 1 2 3 4, of "\<lambda>p a b. Completed 1 []"] a
  have ra: "\<exists>results w' cache'.
      main_from_diffs (\<lambda>p a b. Completed 1 []) rev Written [?d] ?w = (Exit2 results, w') \<and>
      cache_file w' = Document cache' \<and> cache' (key_of ?d) = Some []"
    by auto
  from fresh_result_cached_iff_no_parenthesis
    [OF 1 2 3 4, of "\<lambda>p a b. Completed 0 '' (beta) removed ''"] b
  have rb: "\<exists>results w' cache'.
      main_from_diffs (\<lambda>p a b. Completed 0 '' (beta) removed '') rev Written [?d] ?w =
        (Exit2 results, w') \<and>
      cache_file w' = Document cache' \<and> cache' (key_of ?d) = None"
    by auto
  from 1 2 4 a ra b rb show ?thesis by blast
qed

subsection \<open>Round trip through the cache file\<close>

lemma spawned_key: "spawned d' = spawned d \<Longrightarrow> key_of d' = key_of d"
  by (simp add: spawned_def key_of_def)

lemma cached_member:
  "d \<in> set ds \<Longrightarrow> c (key_of d) = Some T \<Longrightarrow> with_research d T \<in> set (cached_results_of c ds)"
  by (force simp: cached_results_of_def)

lemma key_of_react: 
  "key_of \<lparr>package = ''react'', installed_version = ''^17.0.2'', installed_major = 17,
       latest_version = ''18.2.0'', latest_major = 18\<rparr> = ''react:17->18''"
  by (simp add: key_of_def cache_key_def py_str_def str_nat.simps)

text \<open>
  Claim C5. For every key and research text: after the text is stored under the key, a
  lookup in the same cache returns exactly that text; after the cache is saved (the file
  is written) and loaded again, the key is still a hit with the same text; and a second
  invocation that starts from the saved file, whatever its diffs, agent and completion
  order are, reports every diff that maps to the key with the stored text and does not
  start the research function for it: no \<open>Spawn\<close> event for the diff is among the events
  the invocation adds to the trace.
\<close>

theorem cache_round_trip:
  "store c K T K = Some T \<and>
   fst (load_cache (save_cache Written (store c K T) w)) K = Some T \<and>
   (\<forall>diffs d run completion how.
      d \<in> set (filter_redundant_types diffs) \<and> key_of d = K \<longrightarrow>
      (\<exists>results w' new.
         main_from_diffs run completion how diffs (save_cache Written (store c K T) w) =
           (Exit2 results, w') \<and>
         with_research d T \<in> set results \<and>
         io_log w' = io_log (save_cache Written (store c K T) w) @ new \<and>
         spawned d \<notin> set new))"
proof (intro conjI allI impI)
  show "store c K T K = Some T" by (simp add: store_def)
next
  show "fst (load_cache (save_cache Written (store c K T) w)) K = Some T"
    by (simp add: load_after_save store_def)
next
  fix diffs d run how and completion :: "future list \<Rightarrow> future list"
  assume a: "d \<in> set (filter_redundant_types diffs) \<and> key_of d = K"
  let ?w = "save_cache Written (store c K T) w"
  let ?c = "fst (load_cache ?w)"
  let ?ds = "filter_redundant_types diffs"
  let ?unc = "uncached_diffs_of ?c ?ds"
  let ?fs = "completion (submit run ?unc)"
  let ?cached = "cached_results_of ?c ?ds"
  have hit: "?c (key_of d) = Some T" using a by (simp add: load_after_save store_def)
  have ne: "diffs \<noteq> []" using a by (auto simp: filter_redundant_types_filter)
  have cached: "with_research d T \<in> set ?cached" using a hit cached_member [of d ?ds ?c T] by blast
  have nospawn: "spawned d \<notin> set (map spawned ?unc)"
  proof
    assume "spawned d \<in> set (map spawned ?unc)"
    then obtain d' where d': "d' \<in> set ?unc" and s: "spawned d' = spawned d" by auto
    from s have "key_of d' = key_of d" by (rule spawned_key)
    with d' hit show False by (simp add: uncached_diffs_of_def)
  qed
  show "\<exists>results w' new.
         main_from_diffs run completion how diffs ?w = (Exit2 results, w') \<and>
         with_research d T \<in> set results \<and>
         io_log w' = io_log ?w @ new \<and> spawned d \<notin> set new"
  proof (cases "?unc = []")
    case True
    then have r: "main_from_diffs run completion how diffs ?w =
        (Exit2 ?cached, ?w\<lparr>io_log := io_log ?w @ [CacheRead]\<rparr>)"
      using ne by (simp add: main_run Let_def)
    have l: "io_log (?w\<lparr>io_log := io_log ?w @ [CacheRead]\<rparr>) = io_log ?w @ [CacheRead]"
      by simp
    have n: "spawned d \<notin> set [CacheRead]" by (simp add: spawned_def)
    from r cached l n show ?thesis by (intro exI conjI)
  next
    case False
    let ?w2 = "?w\<lparr>io_log := io_log ?w @ CacheRead # map spawned ?unc\<rparr>"
    let ?c' = "snd (collect ?fs ?cached ?c)"
    let ?new = "CacheRead # map spawned ?unc @ [CacheWrite]"
    from False have r: "main_from_diffs run completion how diffs ?w =
        (Exit2 (?cached @ map result_of ?fs), save_cache how ?c' ?w2)"
      using ne by (simp add: main_run Let_def)
    have m: "with_research d T \<in> set (?cached @ map result_of ?fs)"
      using cached by simp
    have l: "io_log (save_cache how ?c' ?w2) = io_log ?w @ ?new"
      by (simp add: save_cache_def)
    have n: "spawned d \<notin> set ?new" using nospawn by (simp add: spawned_def)
    from r m l n show ?thesis by (intro exI conjI)
  qed
qed

theorem cache_round_trip_witness:
  "store Map.empty ''react:17->18'' ''renamed render'' ''react:17->18'' = Some ''renamed render'' \<and>
   \<lparr>package = ''react'', installed_version = ''^17.0.2'', installed_major = 17,
       latest_version = ''18.2.0'', latest_major = 18\<rparr>
     \<in> set (filter_redundant_types
         [\<lparr>package = ''react'', installed_version = ''^17.0.2'', installed_major = 17,
           latest_version = ''18.2.0'', latest_major = 18\<rparr>]) \<and>
   key_of \<lparr>package = ''react'', installed_version = ''^17.0.2'', installed_major = 17,
       latest_version = ''18.2.0'', latest_major = 18\<rparr> = ''react:17->18'' \<and>
   (\<exists>results w' new.
      main_from_diffs (\<lambda>p a b. TimeoutExpired) rev Written
        [\<lparr>package = ''react'', installed_version = ''^17.0.2'', installed_major = 17,
          latest_version = ''18.2.0'', latest_major = 18\<rparr>]
        (save_cache Written (store Map.empty ''react:17->18'' ''renamed render'')
           \<lparr>cache_file = Missing, io_log = []\<rparr>) = (Exit2 results, w') \<and>
      with_research \<lparr>package = ''react'', installed_version = ''^17.0.2'', installed_major = 17,
          latest_version = ''18.2.0'', latest_major = 18\<rparr> ''renamed render'' \<in> set results \<and>
      io_log w' = [CacheWrite] @ new \<and>
      Spawn ''react'' 17 18 \<notin> set new)"
proof -
  let ?d = "\<lparr>package = ''react'', installed_version = ''^17.0.2'', installed_major = 17,
       latest_version = ''18.2.0'', latest_major = 18\<rparr>"
  let ?w = "save_cache Written (store Map.empty ''react:17->18'' ''renamed render'')
           \<lparr>cache_file = Missing, io_log = []\<rparr>"
  have 1: "?d \<in> set (filter_redundant_types [?d])"
    by (simp add: filter_redundant_types_filter redundant_def)
  have 2: "key_of ?d = ''react:17->18''" by (rule key_of_react)
  have 3: "io_log ?w = [CacheWrite]" by (simp add: save_cache_def)
  have 4: "spawned ?d = Spawn ''react'' 17 18" by (simp add: spawned_def)
  from cache_round_trip [of Map.empty "''react:17->18''" "''renamed render''"
      "\<lparr>cache_file = Missing, io_log = []\<rparr>"]
  have s: "store Map.empty ''react:17->18'' ''renamed render'' ''react:17->18'' = Some ''renamed render''"
    and r: "\<exists>results w' new.
      main_from_diffs (\<lambda>p a b. TimeoutExpired) rev Written [?d] ?w = (Exit2 results, w') \<and>
      with_research ?d ''renamed render'' \<in> set results \<and>
      io_log w' = io_log ?w @ new \<and> spawned ?d \<notin> set new"
    using 1 2 by blast+
  from r have "\<exists>results w' new.
      main_from_diffs (\<lambda>p a b. TimeoutExpired) rev Written [?d] ?w = (Exit2 results, w') \<and>
      with_research ?d ''renamed render'' \<in> set results \<and>
      io_log w' = [CacheWrite] @ new \<and> Spawn ''react'' 17 18 \<notin> set new"
    unfolding 3 4 .
  with s 1 2 show ?thesis by blast
qed

subsection \<open>Reads and writes of the cache file\<close>

text \<open>
  Claim C8 says that in every invocation the cache file is read exactly once and is
  written only if a new entry was added, staying unchanged otherwise. The code does
  otherwise in two places. With one diff that is not in the cache and whose research
  times out, no entry is added (the cache was empty when loaded and is empty when saved),
  yet \<open>save_cache\<close> runs and the missing file is created. And an invocation without
  diffs ends before \<open>load_cache\<close>: it reads nothing.
\<close>

theorem cache_written_without_new_entry:
  "fst (load_cache \<lparr>cache_file = Missing, io_log = []\<rparr>) = Map.empty \<and>
   main_from_diffs (\<lambda>p a b. TimeoutExpired) (\<lambda>fs. fs) Written
     [\<lparr>package = ''react'', installed_version = ''^17.0.2'', installed_major = 17,
       latest_version = ''18.2.0'', latest_major = 18\<rparr>]
     \<lparr>cache_file = Missing, io_log = []\<rparr> =
   (Exit2 [\<lparr>package = ''react'', installed_version = ''^17.0.2'', installed_major = 17,
            latest_version = ''18.2.0'', latest_major = 18,
            research = ''(Research timed out for react)''\<rparr>],
    \<lparr>cache_file = Document Map.empty, io_log = [CacheRead, Spawn ''react'' 17 18, CacheWrite]\<rparr>) \<and>
   Document Map.empty \<noteq> Missing \<and>
   main_from_diffs (\<lambda>p a b. TimeoutExpired) (\<lambda>fs. fs) Written []
     \<lparr>cache_file = Missing, io_log = []\<rparr> =
   (Exit0, \<lparr>cache_file = Missing, io_log = []\<rparr>)"
  by (simp add: main_run Let_def load_cache_def save_cache_def uncached_diffs_of_def
      cached_results_of_def filter_redundant_types_filter redundant_def submit_def
      research_worker_def with_research_def spawn_research_def spawned_def)

lemma run_trace:
  "io_log (snd (main_from_diffs run completion how diffs w)) =
     io_log w @
     (if diffs = [] then []
      else CacheRead #
           map spawned (uncached_diffs_of (fst (load_cache w)) (filter_redundant_types diffs)) @
           (if uncached_diffs_of (fst (load_cache w)) (filter_redundant_types diffs) = []
            then [] else [CacheWrite])) \<and>
   cache_file (snd (main_from_diffs run completion how diffs w)) =
     (if diffs = [] \<or> uncached_diffs_of (fst (load_cache w)) (filter_redundant_types diffs) = []
      then cache_file w
      else (case how of
              Written \<Rightarrow>
                Document (snd (collect
                  (completion (submit run
                     (uncached_diffs_of (fst (load_cache w)) (filter_redundant_types diffs))))
                  (cached_results_of (fst (load_cache w)) (filter_redundant_types diffs))
                  (fst (load_cache w))))
            | NotOpened \<Rightarrow> cache_file w
            | Interrupted \<Rightarrow> Unreadable))"
  by (cases how) (simp_all add: main_run Let_def save_cache_def)


lemma no_cache_event_spawned:
  "filter (\<lambda>e. e = CacheRead) (map spawned ds) = []"
  "filter (\<lambda>e. e = CacheWrite) (map spawned ds) = []"
  by (simp_all add: filter_map comp_def spawned_def)

lemma run_counts:
  "length (filter (\<lambda>e. e = CacheRead) (io_log (snd (main_from_diffs run completion how diffs w)))) =
     length (filter (\<lambda>e. e = CacheRead) (io_log w)) + (if diffs = [] then 0 else 1) \<and>
   length (filter (\<lambda>e. e = CacheWrite) (io_log (snd (main_from_diffs run completion how diffs w)))) =
     length (filter (\<lambda>e. e = CacheWrite) (io_log w)) +
     (if diffs = [] \<or> uncached_diffs_of (fst (load_cache w)) (filter_redundant_types diffs) = []
      then 0 else 1)"
  by (simp add: main_run Let_def save_cache_def no_cache_event_spawned)

text \<open>
  Claim C8, as amended. An invocation without diffs neither reads nor writes the cache
  file. Every other invocation reads it exactly once, before any research is started,
  and writes it at most once, after all research: exactly when at least one diff was
  not in the cache, whether or not an entry was added. The events the invocation adds to
  the trace are the read, then the started workers, then the write if there is one. When
  every diff is a cache hit the file is not written and stays as it was; otherwise its
  new state is decided by how the write goes.
\<close>

theorem cache_file_access:
  "io_log (snd (main_from_diffs run completion how diffs w)) =
     io_log w @
     (if diffs = [] then []
      else CacheRead #
           map spawned (uncached_diffs_of (fst (load_cache w)) (filter_redundant_types diffs)) @
           (if uncached_diffs_of (fst (load_cache w)) (filter_redundant_types diffs) = []
            then [] else [CacheWrite])) \<and>
   length (filter (\<lambda>e. e = CacheRead) (io_log (snd (main_from_diffs run completion how diffs w)))) =
     length (filter (\<lambda>e. e = CacheRead) (io_log w)) + (if diffs = [] then 0 else 1) \<and>
   length (filter (\<lambda>e. e = CacheWrite) (io_log (snd (main_from_diffs run completion how diffs w)))) =
     length (filter (\<lambda>e. e = CacheWrite) (io_log w)) +
     (if diffs = [] \<or> uncached_diffs_of (fst (load_cache w)) (filter_redundant_types diffs) = []
      then 0 else 1) \<and>
   cache_file (snd (main_from_diffs run completion how diffs w)) =
     (if diffs = [] \<or> uncached_diffs_of (fst (load_cache w)) (filter_redundant_types diffs) = []
      then cache_file w
      else (case how of
              Written \<Rightarrow>
                Document (snd (collect
                  (completion (submit run
                     (uncached_diffs_of (fst (load_cache w)) (filter_redundant_types diffs))))
                  (cached_results_of (fst (load_cache w)) (filter_redundant_types diffs))
                  (fst (load_cache w))))
            | NotOpened \<Rightarrow> cache_file w
            | Interrupted \<Rightarrow> Unreadable))"
  using run_trace [of run completion how diffs w] run_counts [of run completion how diffs w]
  by (intro conjI) (erule conjunct1 conjunct2)+

subsection \<open>One result per dispatched diff\<close>

text \<open>
  The sequential content of the dispatch: whatever the order of completion, the results
  the loop appends are exactly the workers' results for the uncached diffs, one for
  each, a failed research among them with its marker. How many workers run at the same
  time is decided inside the thread pool and is not part of this model.
\<close>

lemma dispatch_one_result_per_diff:
  assumes "\<forall>fs. mset (completion fs) = mset (fs :: future list)"
  shows "mset (map result_of (completion (submit run unc))) = mset (map (research_worker run) unc)"
    and "length (map result_of (completion (submit run unc))) = length unc"
proof -
  have m: "map result_of (submit run unc) = map (research_worker run) unc"
    by (simp add: submit_def)
  have "mset (map result_of (completion (submit run unc))) = mset (map result_of (submit run unc))"
    using assms by (metis mset_map)
  with m show 1: "mset (map result_of (completion (submit run unc))) = mset (map (research_worker run) unc)"
    by simp
  from 1 show "length (map result_of (completion (submit run unc))) = length unc"
    using mset_eq_length by fastforce
qed

section \<open>Properties of the invocation event\<close>

lemma main_head_clean_exits:
  "main_head NotJson = Exit 0"
  "dict_get (JObject items) ''tool_name'' (JString []) = Inr name \<Longrightarrow>
   name \<noteq> JString ''Bash'' \<Longrightarrow> main_head (Json (JObject items)) = Exit 0"
  by (simp_all add: main_head_def)

lemma main_head_well_formed:
  "main_head (Json (JObject [(''tool_name'', JString ''Bash''),
      (''tool_input'', JObject [(''command'', JString c)])])) = Proceed c"
  by (simp add: main_head_def)

text \<open>
  Claim C4 says that every invocation event ends without an uncaught exception. The code
  catches \<open>JSONDecodeError\<close> only: an event that is valid JSON but no object, such as
  the empty array, reaches \<open>hook_input.get\<close> and the run ends with an uncaught
  \<open>AttributeError\<close>. So does an object whose \<open>tool_input\<close> is no object; a command
  that is no string ends with an uncaught \<open>TypeError\<close>.
\<close>

theorem main_raises_on_non_object_event:
  "main_head (Json (JArray [])) = Uncaught AttributeError \<and>
   main_head (Json (JObject [(''tool_name'', JString ''Bash''), (''tool_input'', JNull)])) =
     Uncaught AttributeError \<and>
   main_head (Json (JObject [(''tool_name'', JString ''Bash''),
      (''tool_input'', JObject [(''command'', JNumber 1)])])) = Uncaught TypeError"
  by (simp add: main_head_def)

end
